theory Spec2Isabelle
  imports Main "HOL-Library.Sublist"
begin

section \<open>Python strings\<close>

text \<open>
  A Python \<open>str\<close> is a sequence of Unicode code points, and \<open>len\<close>, slicing,
  \<open>replace\<close> and \<open>strip\<close> all count code points.  The scripts exist to probe CJK
  file names, so a character is a code point (a natural number), not a byte.
\<close>

type_synonym codepoint = nat
type_synonym pystr = "codepoint list"

text \<open>An ASCII literal of the source, as code points.\<close>

definition lit :: "string \<Rightarrow> pystr" where
  "lit s = map of_char s"

text \<open>
  \<open>s.replace(old, new)\<close> where \<open>old\<close> is a one-character string: every occurrence of
  that character is replaced by \<open>new\<close>, left to right.
\<close>

definition str_replace :: "codepoint \<Rightarrow> pystr \<Rightarrow> pystr \<Rightarrow> pystr" where
  "str_replace old new s = concat (map (\<lambda>x. if x = old then new else [x]) s)"

text \<open>\<open>s.lstrip(chars)\<close>, \<open>s.rstrip(chars)\<close> and \<open>s.strip(chars)\<close>.\<close>

definition str_lstrip :: "pystr \<Rightarrow> pystr \<Rightarrow> pystr" where
  "str_lstrip chars s = dropWhile (\<lambda>c. c \<in> set chars) s"

definition str_rstrip :: "pystr \<Rightarrow> pystr \<Rightarrow> pystr" where
  "str_rstrip chars s = rev (dropWhile (\<lambda>c. c \<in> set chars) (rev s))"

definition str_strip :: "pystr \<Rightarrow> pystr \<Rightarrow> pystr" where
  "str_strip chars s = str_rstrip chars (str_lstrip chars s)"

section \<open>The filename sanitizer\<close>

text \<open>\<open>forbidden_chars = '<>:"|?*\\/'\<close>: nine characters, the last two a backslash and a slash.\<close>

definition forbidden_chars :: pystr where
  "forbidden_chars = map of_char
     [CHR ''<'', CHR ''>'', CHR '':'', CHR 0x22, CHR ''|'', CHR ''?'', CHR ''*'', CHR 0x5C, CHR ''/'']"

text \<open>\<open>control_chars = ''.join(chr(i) for i in range(32))\<close>.\<close>

definition control_chars :: pystr where
  "control_chars = [0..<32]"

text \<open>
  The loop \<open>for char in forbidden_chars + control_chars: sane_name = sane_name.replace(char, '')\<close>.
\<close>

definition remove_loop :: "pystr \<Rightarrow> pystr \<Rightarrow> pystr" where
  "remove_loop chars filename = foldl (\<lambda>sane_name char. str_replace char [] sane_name) filename chars"

text \<open>\<open>new_sanitize_filename\<close> of \<open>tests/debug_filename.py\<close>.\<close>

definition new_sanitize_filename :: "pystr \<Rightarrow> pystr" where
  "new_sanitize_filename filename =
     (let sane_name = remove_loop (forbidden_chars @ control_chars) filename;
          sane_name = str_strip (lit '' .'') sane_name
      in if sane_name = [] then lit ''scanned_document''
         else if length sane_name > 200 then take 200 sane_name
         else sane_name)"

text \<open>
  \<open>_sanitize_filename\<close> of \<open>tests/debug_app_flow.py\<close> (an Isabelle name cannot start with
  an underscore).
\<close>

definition sanitize_filename :: "pystr \<Rightarrow> pystr" where
  "sanitize_filename filename =
     (let sane_name = remove_loop (forbidden_chars @ control_chars) filename;
          sane_name = str_strip (lit '' .'') sane_name
      in if sane_name = [] then lit ''scanned_document''
         else if length sane_name > 200 then take 200 sane_name
         else sane_name)"

section \<open>The reference definition of the sanitizer\<close>

text \<open>
  The sanitizer as the specification words it: delete the forbidden characters and the code
  points 0 to 31, strip leading and trailing spaces and dots, fall back to
  \<open>scanned_document\<close> on the empty string, otherwise keep the first 200 characters.
\<close>

definition spec_forbidden :: "codepoint set" where
  "spec_forbidden = of_char `
     {CHR ''<'', CHR ''>'', CHR '':'', CHR 0x22, CHR ''|'', CHR ''?'', CHR ''*'', CHR 0x5C, CHR ''/''}"

definition spec_delete :: "pystr \<Rightarrow> pystr" where
  "spec_delete s = filter (\<lambda>c. c \<notin> spec_forbidden \<and> \<not> c \<le> 31) s"

definition space_or_dot :: "codepoint \<Rightarrow> bool" where
  "space_or_dot c = (c = of_char CHR '' '' \<or> c = of_char CHR ''.'')"

definition spec_strip :: "pystr \<Rightarrow> pystr" where
  "spec_strip s = rev (dropWhile space_or_dot (rev (dropWhile space_or_dot s)))"

definition spec_sanitize :: "pystr \<Rightarrow> pystr" where
  "spec_sanitize s =
     (let r = spec_strip (spec_delete s)
      in if r = [] then lit ''scanned_document'' else take 200 r)"

section \<open>The old sanitizer\<close>

text \<open>
  \<open>old_sanitize_filename\<close> is \<open>re.sub(r'[^\w.\-]', '', filename)\<close>.  On a \<open>str\<close> pattern
  \<open>\w\<close> matches a character that is alphanumeric in the Unicode database, or the
  underscore.  Below 128 the alphanumeric characters are the ASCII letters and digits; the
  database's table for the code points from 128 on is the parameter \<open>alnum\<close>.
\<close>

definition ascii_alnum :: "codepoint \<Rightarrow> bool" where
  "ascii_alnum c =
     ((of_char CHR ''0'' \<le> c \<and> c \<le> of_char CHR ''9'') \<or>
      (of_char CHR ''A'' \<le> c \<and> c \<le> of_char CHR ''Z'') \<or>
      (of_char CHR ''a'' \<le> c \<and> c \<le> of_char CHR ''z''))"

definition word_char :: "(codepoint \<Rightarrow> bool) \<Rightarrow> codepoint \<Rightarrow> bool" where
  "word_char alnum c = ((if c < 128 then ascii_alnum c else alnum c) \<or> c = of_char CHR ''_'')"

text \<open>The class \<open>[^\w.\-]\<close>: any character that is not a word character, a dot or a hyphen.\<close>

definition not_word_dot_hyphen :: "(codepoint \<Rightarrow> bool) \<Rightarrow> codepoint \<Rightarrow> bool" where
  "not_word_dot_hyphen alnum c =
     (\<not> (word_char alnum c \<or> c = of_char CHR ''.'' \<or> c = of_char CHR ''-''))"

text \<open>\<open>re.sub\<close> of a pattern that matches one character of a class: each match is replaced.\<close>

definition re_sub_class :: "(codepoint \<Rightarrow> bool) \<Rightarrow> pystr \<Rightarrow> pystr \<Rightarrow> pystr" where
  "re_sub_class cls repl s = concat (map (\<lambda>c. if cls c then repl else [c]) s)"

definition old_sanitize_filename :: "(codepoint \<Rightarrow> bool) \<Rightarrow> pystr \<Rightarrow> pystr" where
  "old_sanitize_filename alnum filename = re_sub_class (not_word_dot_hyphen alnum) [] filename"

section \<open>The default file name of the simulated flow\<close>

text \<open>\<open>p.rfind(c)\<close> for a one-character \<open>c\<close>: the highest index of \<open>c\<close>, or -1.\<close>

primrec rfind_from :: "codepoint \<Rightarrow> pystr \<Rightarrow> int \<Rightarrow> int \<Rightarrow> int" where
  "rfind_from c [] i found = found"
| "rfind_from c (x # xs) i found = rfind_from c xs (i + 1) (if x = c then i else found)"

definition str_rfind :: "pystr \<Rightarrow> codepoint \<Rightarrow> int" where
  "str_rfind p c = rfind_from c p 0 (- 1)"

text \<open>The slice \<open>p[i:j]\<close> for indices that are not negative.\<close>

definition slice :: "pystr \<Rightarrow> int \<Rightarrow> int \<Rightarrow> pystr" where
  "slice p i j = take (nat (j - i)) (drop (nat i) p)"

text \<open>
  The loop of \<open>genericpath._splitext\<close> that skips the leading dots of the last component:
  true when it returns from inside (a character other than the dot comes before the last
  dot), false when it runs to its end.
\<close>

function skip_leading_dots :: "pystr \<Rightarrow> codepoint \<Rightarrow> int \<Rightarrow> int \<Rightarrow> bool" where
  "skip_leading_dots p extsep filenameIndex dotIndex =
     (if filenameIndex < dotIndex
      then (if slice p filenameIndex (filenameIndex + 1) \<noteq> [extsep] then True
            else skip_leading_dots p extsep (filenameIndex + 1) dotIndex)
      else False)"
  by pat_completeness auto
termination
  by (relation "measure (\<lambda>(p, extsep, filenameIndex, dotIndex). nat (dotIndex - filenameIndex))") auto

declare skip_leading_dots.simps [simp del]

definition splitext_generic ::
  "pystr \<Rightarrow> codepoint \<Rightarrow> codepoint option \<Rightarrow> codepoint \<Rightarrow> pystr \<times> pystr" where
  "splitext_generic p sep altsep extsep =
     (let sepIndex = str_rfind p sep;
          sepIndex = (case altsep of None \<Rightarrow> sepIndex
                      | Some a \<Rightarrow> max sepIndex (str_rfind p a));
          dotIndex = str_rfind p extsep
      in if dotIndex > sepIndex \<and> skip_leading_dots p extsep (sepIndex + 1) dotIndex
         then (slice p 0 dotIndex, drop (nat dotIndex) p)
         else (p, []))"

text \<open>\<open>os.path\<close> is \<open>ntpath\<close> on Windows and \<open>posixpath\<close> elsewhere.\<close>

datatype platform = Windows | Posix

fun os_path_splitext :: "platform \<Rightarrow> pystr \<Rightarrow> pystr \<times> pystr" where
  "os_path_splitext Windows p =
     splitext_generic p (of_char CHR 0x5C) (Some (of_char CHR ''/'')) (of_char CHR ''.'')"
| "os_path_splitext Posix p =
     splitext_generic p (of_char CHR ''/'') None (of_char CHR ''.'')"

text \<open>\<open>d.get(key, default)\<close>.\<close>

definition dict_get :: "('k \<rightharpoonup> 'v) \<Rightarrow> 'k \<Rightarrow> 'v \<Rightarrow> 'v" where
  "dict_get d key dflt = (case d key of None \<Rightarrow> dflt | Some v \<Rightarrow> v)"

text \<open>The four ideographs of the literal \<open>'\<dots>'\<close> that stands for "unknown file".\<close>

definition unknown_file :: pystr where
  "unknown_file = [0x672A, 0x77E5, 0x6587, 0x4EF6]"

text \<open>Step 3 of \<open>simulate_app_flow\<close>, as a function of the OCR result.\<close>

definition default_filename :: "platform \<Rightarrow> (pystr \<rightharpoonup> pystr) \<Rightarrow> pystr" where
  "default_filename os ocr_result =
     (let file_name = dict_get ocr_result (lit ''file_name'') unknown_file;
          base_name = fst (os_path_splitext os file_name);
          sanitized_base_name = sanitize_filename base_name
      in sanitized_base_name @ lit ''.docx'')"

text \<open>The OCR result that the script builds: the unknown-file name with \<open>.jpg\<close>.\<close>

definition ocr_result :: "pystr \<rightharpoonup> pystr" where
  "ocr_result = [lit ''file_name'' \<mapsto> unknown_file @ lit ''.jpg'']"

section \<open>The converter's command line\<close>

text \<open>\<open>pandoc_cmd\<close> of \<open>test_pandoc_encoding\<close> in \<open>debug_pandoc.py\<close>.\<close>

definition pandoc_cmd_encoding :: "pystr \<Rightarrow> pystr \<Rightarrow> pystr \<Rightarrow> pystr list" where
  "pandoc_cmd_encoding pandoc_exe input_file output_path =
     [pandoc_exe, input_file,
      lit ''-o'', output_path,
      lit ''--from'', lit ''markdown'',
      lit ''--to'', lit ''docx'']"

text \<open>\<open>pandoc_cmd\<close> of \<open>simulate_pandoc_call\<close> in \<open>tests/debug_app_flow.py\<close>.\<close>

definition pandoc_cmd_flow :: "pystr \<Rightarrow> pystr \<Rightarrow> pystr \<Rightarrow> pystr list" where
  "pandoc_cmd_flow pandoc_exe input_file output_path =
     [pandoc_exe, input_file,
      lit ''-o'', output_path,
      lit ''--from'', lit ''gfm+pipe_tables+hard_line_breaks'',
      lit ''--to'', lit ''docx'',
      lit ''--wrap=none'']"

section \<open>Basic facts\<close>

lemma str_replace_del: "str_replace c [] s = filter (\<lambda>x. x \<noteq> c) s"
  by (induction s) (simp_all add: str_replace_def)

lemma remove_loop_filter: "remove_loop chars s = filter (\<lambda>x. x \<notin> set chars) s"
proof (induction chars arbitrary: s)
  case Nil
  show ?case by (simp add: remove_loop_def)
next
  case (Cons c cs)
  have "remove_loop (c # cs) s = remove_loop cs (str_replace c [] s)"
    by (simp add: remove_loop_def)
  also have "\<dots> = filter (\<lambda>x. x \<notin> set cs) (filter (\<lambda>x. x \<noteq> c) s)"
    by (simp add: Cons.IH str_replace_del)
  also have "\<dots> = filter (\<lambda>x. x \<notin> set (c # cs)) s"
    by (simp add: conj_commute)
  finally show ?case .
qed

lemma set_str_strip: "set (str_strip chars s) \<subseteq> set s"
proof -
  have "set (str_rstrip chars t) \<subseteq> set t" for t
    using set_dropWhileD [of _ "\<lambda>c. c \<in> set chars" "rev t"]
    by (auto simp add: str_rstrip_def)
  moreover have "set (str_lstrip chars s) \<subseteq> set s"
    using set_dropWhileD [of _ "\<lambda>c. c \<in> set chars" s]
    by (auto simp add: str_lstrip_def)
  ultimately show ?thesis
    unfolding str_strip_def by blast
qed

lemma sanitize_filename_eq: "sanitize_filename = new_sanitize_filename"
  by (rule ext) (simp add: sanitize_filename_def new_sanitize_filename_def)

lemma lit_space_dot: "lit '' .'' = [32, 46]"
  by (simp add: lit_def)

lemma lit_scanned_document:
  "lit ''scanned_document'' =
     [115, 99, 97, 110, 110, 101, 100, 95, 100, 111, 99, 117, 109, 101, 110, 116]"
  by (simp add: lit_def)

lemma forbidden_chars_codes: "forbidden_chars = [60, 62, 58, 34, 124, 63, 42, 92, 47]"
  by (simp add: forbidden_chars_def)

lemma set_control_chars: "set control_chars = {c. c < 32}"
  by (auto simp add: control_chars_def)

section \<open>The sanitizer, step by step\<close>

lemma remove_loop_clean:
  "remove_loop (forbidden_chars @ control_chars) s =
     filter (\<lambda>c. c \<notin> set forbidden_chars \<and> \<not> c < 32) s"
  by (simp add: remove_loop_filter set_control_chars)

lemma new_sanitize_unfold:
  "new_sanitize_filename s =
     (let t = str_strip [32, 46] (filter (\<lambda>c. c \<notin> set forbidden_chars \<and> \<not> c < 32) s)
      in if t = [] then lit ''scanned_document'' else take 200 t)"
  by (simp add: new_sanitize_filename_def remove_loop_clean lit_space_dot Let_def)

lemma fallback_clean:
  "set (lit ''scanned_document'') \<inter> ({60, 62, 58, 34, 124, 63, 42, 92, 47} \<union> {c. c \<le> 31}) = {}"
  by (simp add: lit_scanned_document)

lemma new_sanitize_clean:
  "set (new_sanitize_filename s) \<inter> ({60, 62, 58, 34, 124, 63, 42, 92, 47} \<union> {c. c \<le> 31}) = {}"
proof (cases "str_strip [32, 46] (filter (\<lambda>c. c \<notin> set forbidden_chars \<and> \<not> c < 32) s) = []")
  case True
  then show ?thesis by (simp add: new_sanitize_unfold Let_def lit_scanned_document)
next
  case False
  let ?f = "filter (\<lambda>c. c \<notin> set forbidden_chars \<and> \<not> c < 32) s"
  have "set (new_sanitize_filename s) \<subseteq> set (str_strip [32, 46] ?f)"
    using False by (simp add: new_sanitize_unfold Let_def set_take_subset)
  also have "\<dots> \<subseteq> set ?f" by (rule set_str_strip)
  finally have "set (new_sanitize_filename s) \<subseteq> {c. c \<notin> set forbidden_chars \<and> \<not> c < 32}"
    by auto
  then show ?thesis
    by (auto simp add: forbidden_chars_codes)
qed

lemma new_sanitize_length: "length (new_sanitize_filename s) \<le> 200"
  by (simp add: new_sanitize_unfold Let_def lit_scanned_document)

lemma new_sanitize_nonempty: "new_sanitize_filename s \<noteq> []"
  by (simp add: new_sanitize_unfold Let_def lit_scanned_document)

lemma rstrip_prefix: "str_rstrip chars s @ rev (takeWhile (\<lambda>c. c \<in> set chars) (rev s)) = s"
proof -
  let ?P = "\<lambda>c. c \<in> set chars"
  have "rev (dropWhile ?P (rev s)) @ rev (takeWhile ?P (rev s))
      = rev (takeWhile ?P (rev s) @ dropWhile ?P (rev s))"
    by (simp only: rev_append)
  also have "\<dots> = rev (rev s)" by (simp only: takeWhile_dropWhile_id)
  also have "\<dots> = s" by (rule rev_rev_ident)
  finally show ?thesis by (simp only: str_rstrip_def)
qed

lemma lstrip_id: "s \<noteq> [] \<Longrightarrow> hd s \<notin> set chars \<Longrightarrow> str_lstrip chars s = s"
  by (simp add: str_lstrip_def dropWhile_eq_self_iff)

lemma rstrip_id:
  assumes "s \<noteq> []" "last s \<notin> set chars"
  shows "str_rstrip chars s = s"
proof -
  have "dropWhile (\<lambda>c. c \<in> set chars) (rev s) = rev s"
    using assms by (simp add: dropWhile_eq_self_iff hd_rev)
  then show ?thesis by (simp add: str_rstrip_def)
qed

lemma rstrip_nonempty:
  assumes "s \<noteq> []" "hd s \<notin> set chars"
  shows "str_rstrip chars s \<noteq> []"
proof -
  from assms(1) have "hd s \<in> set (rev s)" by simp
  with assms(2) have "\<exists>x\<in>set (rev s). x \<notin> set chars" by blast
  then have "dropWhile (\<lambda>c. c \<in> set chars) (rev s) \<noteq> []"
    by (simp add: dropWhile_eq_Nil_conv)
  then show ?thesis by (simp add: str_rstrip_def)
qed

lemma rstrip_changes:
  assumes "s \<noteq> []" "last s \<in> set chars"
  shows "str_rstrip chars s \<noteq> s"
proof
  assume "str_rstrip chars s = s"
  then have "rev (str_rstrip chars s) = rev s" by (rule arg_cong)
  then have "dropWhile (\<lambda>c. c \<in> set chars) (rev s) = rev s"
    by (simp add: str_rstrip_def)
  then have "hd (rev s) \<notin> set chars" using assms(1)
    by (simp add: dropWhile_eq_self_iff)
  with assms show False by (simp add: hd_rev)
qed

lemma hd_strip:
  assumes "str_strip chars s \<noteq> []"
  shows "hd (str_strip chars s) \<notin> set chars"
proof -
  let ?l = "str_lstrip chars s"
  let ?y = "rev (takeWhile (\<lambda>c. c \<in> set chars) (rev ?l))"
  have ne: "?l \<noteq> []" using assms by (auto simp add: str_strip_def str_rstrip_def)
  then have h: "hd ?l \<notin> set chars"
    unfolding str_lstrip_def by (rule hd_dropWhile)
  have "hd (str_rstrip chars ?l @ ?y) = hd (str_rstrip chars ?l)"
    using assms unfolding str_strip_def by (rule hd_append2)
  then have "hd ?l = hd (str_rstrip chars ?l)"
    by (simp only: rstrip_prefix)
  with h show ?thesis by (simp add: str_strip_def)
qed

lemma hd_take_pos: "xs \<noteq> [] \<Longrightarrow> hd (take 200 xs) = hd xs"
  by (cases xs) simp_all

lemma new_sanitize_hd: "hd (new_sanitize_filename s) \<notin> {32, 46}"
proof (cases "str_strip [32, 46] (filter (\<lambda>c. c \<notin> set forbidden_chars \<and> \<not> c < 32) s) = []")
  case True
  then show ?thesis by (simp add: new_sanitize_unfold Let_def lit_scanned_document)
next
  case False
  from hd_strip [OF False] False show ?thesis
    by (simp add: new_sanitize_unfold Let_def hd_take_pos)
qed

lemma new_sanitize_twice:
  "new_sanitize_filename (new_sanitize_filename s) = str_rstrip [32, 46] (new_sanitize_filename s)"
proof -
  let ?r = "new_sanitize_filename s"
  have ne: "?r \<noteq> []" by (rule new_sanitize_nonempty)
  have hd: "hd ?r \<notin> set [32, 46]" using new_sanitize_hd [of s] by simp
  have "\<forall>c\<in>set ?r. c \<notin> set forbidden_chars \<and> \<not> c < 32"
    using new_sanitize_clean [of s] by (auto simp add: forbidden_chars_codes)
  then have f: "filter (\<lambda>c. c \<notin> set forbidden_chars \<and> \<not> c < 32) ?r = ?r"
    by (simp add: filter_id_conv)
  have st: "str_strip [32, 46] ?r = str_rstrip [32, 46] ?r"
    using ne hd by (simp add: str_strip_def lstrip_id)
  have ne2: "str_rstrip [32, 46] ?r \<noteq> []" using ne hd by (rule rstrip_nonempty)
  have "length (str_rstrip [32, 46] ?r) \<le> length ?r"
    by (simp add: str_rstrip_def length_dropWhile_le [of _ "rev ?r", simplified])
  then have le: "length (str_rstrip [32, 46] ?r) \<le> 200"
    using new_sanitize_length [of s] by simp
  have "new_sanitize_filename ?r =
      (let t = str_strip [32, 46] (filter (\<lambda>c. c \<notin> set forbidden_chars \<and> \<not> c < 32) ?r)
       in if t = [] then lit ''scanned_document'' else take 200 t)"
    by (rule new_sanitize_unfold)
  then have "new_sanitize_filename ?r =
      (if str_rstrip [32, 46] ?r = [] then lit ''scanned_document''
       else take 200 (str_rstrip [32, 46] ?r))"
    by (simp only: f st Let_def)
  with ne2 le show ?thesis by simp
qed

lemma spec_delete_eq: "spec_delete s = filter (\<lambda>c. c \<notin> set forbidden_chars \<and> \<not> c < 32) s"
proof -
  have "spec_forbidden = set forbidden_chars"
    by (simp add: spec_forbidden_def forbidden_chars_def)
  moreover have "(\<not> c \<le> 31) = (\<not> c < 32)" for c :: nat by auto
  ultimately show ?thesis by (simp add: spec_delete_def)
qed

lemma spec_strip_eq: "spec_strip s = str_strip [32, 46] s"
proof -
  have "space_or_dot = (\<lambda>c. c \<in> set [32, 46])"
    by (rule ext) (simp add: space_or_dot_def)
  then show ?thesis
    by (simp add: spec_strip_def str_strip_def str_rstrip_def str_lstrip_def)
qed

lemmas sanitize_eval = new_sanitize_unfold sanitize_filename_eq forbidden_chars_codes
  str_strip_def str_lstrip_def str_rstrip_def lit_scanned_document Let_def

lemma last_strip:
  assumes "str_strip chars s \<noteq> []"
  shows "last (str_strip chars s) \<notin> set chars"
proof -
  let ?d = "dropWhile (\<lambda>c. c \<in> set chars) (rev (str_lstrip chars s))"
  have ne: "?d \<noteq> []" using assms by (simp add: str_strip_def str_rstrip_def)
  then have "hd ?d \<notin> set chars" by (rule hd_dropWhile)
  moreover have "last (rev ?d) = hd ?d" using ne by (simp add: last_rev)
  ultimately show ?thesis by (simp add: str_strip_def str_rstrip_def)
qed

lemma new_sanitize_clean_input:
  assumes "s \<noteq> []"
    and "\<forall>c\<in>set s. c \<notin> {60, 62, 58, 34, 124, 63, 42, 92, 47} \<and> \<not> c \<le> 31"
    and "hd s \<notin> {32, 46}" "last s \<notin> {32, 46}"
  shows "new_sanitize_filename s = take 200 s"
proof -
  have "c \<notin> set forbidden_chars \<and> \<not> c < 32" if "c \<in> set s" for c
  proof -
    from assms(2) that have "c \<notin> {60, 62, 58, 34, 124, 63, 42, 92, 47} \<and> \<not> c \<le> 31"
      by (rule bspec)
    then show ?thesis by (simp add: forbidden_chars_codes)
  qed
  then have f: "filter (\<lambda>c. c \<notin> set forbidden_chars \<and> \<not> c < 32) s = s"
    by (simp only: filter_id_conv) blast
  have l: "str_lstrip [32, 46] s = s"
    using assms(1,3) by (simp add: lstrip_id)
  have r: "str_rstrip [32, 46] s = s"
    using assms(1,4) by (simp add: rstrip_id)
  have "new_sanitize_filename s =
      (let t = str_strip [32, 46] (filter (\<lambda>c. c \<notin> set forbidden_chars \<and> \<not> c < 32) s)
       in if t = [] then lit ''scanned_document'' else take 200 t)"
    by (rule new_sanitize_unfold)
  then have "new_sanitize_filename s = (if s = [] then lit ''scanned_document'' else take 200 s)"
    by (simp only: f str_strip_def l r Let_def)
  with assms(1) show ?thesis by simp
qed

lemma long_name_value:
  "new_sanitize_filename (replicate 199 97 @ [32, 98]) = replicate 199 97 @ [32]"
proof -
  have "new_sanitize_filename (replicate 199 97 @ [32, 98]) = take 200 (replicate 199 97 @ [32, 98])"
    by (rule new_sanitize_clean_input) simp_all
  then show ?thesis by simp
qed

lemma new_sanitize_id:
  assumes "s \<noteq> []" "length s \<le> 200"
    and "\<forall>c\<in>set s. c \<notin> {60, 62, 58, 34, 124, 63, 42, 92, 47} \<and> \<not> c \<le> 31"
    and "hd s \<notin> {32, 46}" "last s \<notin> {32, 46}"
  shows "new_sanitize_filename s = s"
proof -
  have "new_sanitize_filename s = take 200 s"
    using assms(1,3,4,5) by (rule new_sanitize_clean_input)
  with assms(2) show ?thesis by simp
qed

section \<open>The claims about the sanitizer\<close>

text \<open>
  C1.  For every input string, the result of the sanitizer (\<open>new_sanitize_filename\<close>, and the
  identical \<open>_sanitize_filename\<close>) contains none of the characters
  \<open><\<close> (60), \<open>>\<close> (62), \<open>:\<close> (58), the double quote (34), \<open>|\<close> (124), \<open>?\<close> (63), \<open>*\<close> (42),
  the backslash (92) and \<open>/\<close> (47), and no control character (code points 0 to 31).
\<close>

theorem sanitizer_strips_forbidden_and_control:
  "set (new_sanitize_filename s) \<inter> ({60, 62, 58, 34, 124, 63, 42, 92, 47} \<union> {c. c \<le> 31}) = {} \<and>
   set (sanitize_filename s) \<inter> ({60, 62, 58, 34, 124, 63, 42, 92, 47} \<union> {c. c \<le> 31}) = {}"
  by (simp only: sanitize_filename_eq new_sanitize_clean)

text \<open>A name of the script's own test list: two ideographs, then \<open><>:tests\<close>.\<close>

theorem sanitizer_strips_forbidden_and_control_witness:
  "new_sanitize_filename [25991, 26723, 60, 62, 58, 116, 101, 115, 116, 115]
     = [25991, 26723, 116, 101, 115, 116, 115] \<and>
   set (new_sanitize_filename [25991, 26723, 60, 62, 58, 116, 101, 115, 116, 115])
     \<inter> ({60, 62, 58, 34, 124, 63, 42, 92, 47} \<union> {c. c \<le> 31}) = {}"
  using sanitizer_strips_forbidden_and_control [of "[25991, 26723, 60, 62, 58, 116, 101, 115, 116, 115]"]
  by (simp add: sanitize_eval)

text \<open>
  C2.  For every input string, the result of the sanitizer has at most 200 characters.
\<close>

theorem sanitizer_length_bound:
  "length (new_sanitize_filename s) \<le> 200 \<and> length (sanitize_filename s) \<le> 200"
  by (simp only: sanitize_filename_eq new_sanitize_length)

text \<open>A name of 250 letters \<open>a\<close> is cut to exactly 200.\<close>

theorem sanitizer_length_bound_witness:
  "length (new_sanitize_filename (replicate 250 97)) = 200 \<and>
   length (sanitize_filename (replicate 250 97)) \<le> 200"
  using sanitizer_length_bound [of "replicate 250 97"]
  by (simp add: sanitize_eval)

text \<open>
  C6.  The sanitizer leaves non-ASCII characters intact: a non-empty string of at most 200
  characters, none of them forbidden or a control character, that neither starts nor ends
  with a space (32) or a dot (46), is returned unchanged.
\<close>

theorem sanitizer_keeps_clean_names:
  assumes "s \<noteq> []" and "length s \<le> 200"
    and "\<forall>c\<in>set s. c \<notin> {60, 62, 58, 34, 124, 63, 42, 92, 47} \<and> \<not> c \<le> 31"
    and "hd s \<notin> {32, 46}" and "last s \<notin> {32, 46}"
  shows "new_sanitize_filename s = s \<and> sanitize_filename s = s"
  using new_sanitize_id [OF assms] by (simp add: sanitize_filename_eq)

text \<open>The four ideographs of the default name.\<close>

theorem sanitizer_keeps_clean_names_witness:
  "unknown_file \<noteq> [] \<and> length unknown_file \<le> 200 \<and>
   set unknown_file \<inter> ({60, 62, 58, 34, 124, 63, 42, 92, 47} \<union> {c. c \<le> 31}) = {} \<and>
   hd unknown_file \<notin> {32, 46} \<and> last unknown_file \<notin> {32, 46} \<and>
   new_sanitize_filename unknown_file = [26410, 30693, 25991, 20214] \<and>
   sanitize_filename unknown_file = [26410, 30693, 25991, 20214]"
proof -
  have h: "unknown_file \<noteq> []" "length unknown_file \<le> 200"
    "\<forall>c\<in>set unknown_file. c \<notin> {60, 62, 58, 34, 124, 63, 42, 92, 47} \<and> \<not> c \<le> 31"
    "hd unknown_file \<notin> {32, 46}" "last unknown_file \<notin> {32, 46}"
    by (simp_all add: unknown_file_def)
  from sanitizer_keeps_clean_names [OF h] h show ?thesis
    by (simp add: unknown_file_def)
qed

text \<open>
  C7.  The sanitizer equals the reference definition \<open>spec_sanitize\<close>: delete the forbidden
  characters and the code points 0 to 31, strip leading and trailing spaces and dots, return
  \<open>scanned_document\<close> if nothing is left, otherwise the first 200 characters.
\<close>

theorem sanitizer_refines_reference:
  "new_sanitize_filename s = spec_sanitize s \<and> sanitize_filename s = spec_sanitize s"
  by (simp add: sanitize_filename_eq new_sanitize_unfold spec_sanitize_def spec_delete_eq
      spec_strip_eq)

theorem sanitizer_refines_reference_witness:
  "new_sanitize_filename [32, 46, 25991, 26723, 60, 62, 58, 116, 32, 46]
     = spec_sanitize [32, 46, 25991, 26723, 60, 62, 58, 116, 32, 46] \<and>
   spec_sanitize [32, 46, 25991, 26723, 60, 62, 58, 116, 32, 46] = [25991, 26723, 116]"
proof -
  have v: "spec_sanitize [32, 46, 25991, 26723, 60, 62, 58, 116, 32, 46] = [25991, 26723, 116]"
    by (simp add: spec_sanitize_def spec_delete_eq spec_strip_eq sanitize_eval)
  from sanitizer_refines_reference [of "[32, 46, 25991, 26723, 60, 62, 58, 116, 32, 46]"] v
  show ?thesis by simp
qed

text \<open>
  C8.  The result of the sanitizer is never empty: whenever deleting and stripping leaves
  the empty string, the sanitizer returns the fallback name \<open>scanned_document\<close>.
\<close>

theorem sanitizer_result_nonempty:
  "new_sanitize_filename s \<noteq> [] \<and> sanitize_filename s \<noteq> [] \<and>
   (str_strip (lit '' .'') (remove_loop (forbidden_chars @ control_chars) s) = [] \<longrightarrow>
      new_sanitize_filename s = lit ''scanned_document'' \<and>
      sanitize_filename s = lit ''scanned_document'')"
  by (simp add: sanitize_filename_eq new_sanitize_nonempty new_sanitize_filename_def Let_def
      lit_scanned_document)

theorem sanitizer_result_nonempty_witness:
  "str_strip (lit '' .'') (remove_loop (forbidden_chars @ control_chars) [32, 46, 60, 62, 0, 46]) = [] \<and>
   new_sanitize_filename [32, 46, 60, 62, 0, 46] = lit ''scanned_document'' \<and>
   sanitize_filename [32, 46, 60, 62, 0, 46] = lit ''scanned_document'' \<and>
   new_sanitize_filename [32, 46, 60, 62, 0, 46] \<noteq> []"
proof -
  have h: "str_strip (lit '' .'') (remove_loop (forbidden_chars @ control_chars) [32, 46, 60, 62, 0, 46]) = []"
    unfolding remove_loop_clean lit_space_dot by (simp add: sanitize_eval)
  from sanitizer_result_nonempty [of "[32, 46, 60, 62, 0, 46]"] h show ?thesis
    by blast
qed

text \<open>
  C9, as stated: the sanitizer is idempotent.  It is not: the truncation to 200 characters
  comes after the strip, so a name whose 200th character is a space keeps that space, and a
  second pass strips it.  The input is 199 letters \<open>a\<close>, a space and a letter \<open>b\<close>.
\<close>

theorem sanitizer_not_idempotent:
  "new_sanitize_filename (new_sanitize_filename (replicate 199 97 @ [32, 98]))
     \<noteq> new_sanitize_filename (replicate 199 97 @ [32, 98])"
proof -
  let ?r = "new_sanitize_filename (replicate 199 97 @ [32, 98])"
  have "?r \<noteq> []" by (rule new_sanitize_nonempty)
  moreover have "last ?r \<in> set [32, 46]" by (simp add: long_name_value)
  ultimately have "str_rstrip [32, 46] ?r \<noteq> ?r" by (rule rstrip_changes)
  then show ?thesis by (simp add: new_sanitize_twice)
qed

text \<open>A second pass only strips trailing spaces and dots.\<close>

lemma twice_iff:
  "(new_sanitize_filename (new_sanitize_filename s) = new_sanitize_filename s) =
     (last (new_sanitize_filename s) \<notin> {32, 46})"
proof (cases "last (new_sanitize_filename s) \<in> set [32, 46]")
  case True
  with new_sanitize_nonempty [of s] have "str_rstrip [32, 46] (new_sanitize_filename s) \<noteq> new_sanitize_filename s"
    by (rule rstrip_changes)
  with True show ?thesis by (simp add: new_sanitize_twice)
next
  case False
  with new_sanitize_nonempty [of s] have "str_rstrip [32, 46] (new_sanitize_filename s) = new_sanitize_filename s"
    by (rule rstrip_id)
  with False show ?thesis by (simp add: new_sanitize_twice)
qed

lemma untruncated_last:
  assumes "length (str_strip (lit '' .'') (remove_loop (forbidden_chars @ control_chars) s)) \<le> 200"
  shows "last (new_sanitize_filename s) \<notin> {32, 46}"
proof (cases "str_strip (lit '' .'') (remove_loop (forbidden_chars @ control_chars) s) = []")
  case True
  then show ?thesis by (simp add: new_sanitize_filename_def Let_def lit_scanned_document)
next
  case False
  from last_strip [OF False] have "last (str_strip (lit '' .'') (remove_loop (forbidden_chars @ control_chars) s)) \<notin> {32, 46}"
    by (simp add: lit_space_dot)
  with False assms show ?thesis by (simp add: new_sanitize_filename_def Let_def)
qed

text \<open>
  C9, amended.  A second pass changes the result exactly when the first result ends with a
  space or a dot; in particular the sanitizer is idempotent on every input whose cleaned and
  stripped name has at most 200 characters, where nothing is truncated.
\<close>

theorem sanitizer_idempotent_iff_no_trailing_space_or_dot:
  "((new_sanitize_filename (new_sanitize_filename s) = new_sanitize_filename s) =
      (last (new_sanitize_filename s) \<notin> {32, 46})) \<and>
   ((sanitize_filename (sanitize_filename s) = sanitize_filename s) =
      (last (sanitize_filename s) \<notin> {32, 46})) \<and>
   (length (str_strip (lit '' .'') (remove_loop (forbidden_chars @ control_chars) s)) \<le> 200 \<longrightarrow>
      new_sanitize_filename (new_sanitize_filename s) = new_sanitize_filename s \<and>
      sanitize_filename (sanitize_filename s) = sanitize_filename s)"
  using twice_iff [of s] untruncated_last [of s] by (simp only: sanitize_filename_eq) blast

theorem sanitizer_idempotent_iff_no_trailing_space_or_dot_witness:
  "length (str_strip (lit '' .'') (remove_loop (forbidden_chars @ control_chars)
      [32, 26410, 30693, 58, 25991, 20214, 46])) \<le> 200 \<and>
   new_sanitize_filename [32, 26410, 30693, 58, 25991, 20214, 46] = [26410, 30693, 25991, 20214] \<and>
   new_sanitize_filename (new_sanitize_filename [32, 26410, 30693, 58, 25991, 20214, 46])
     = new_sanitize_filename [32, 26410, 30693, 58, 25991, 20214, 46] \<and>
   last (new_sanitize_filename [32, 26410, 30693, 58, 25991, 20214, 46]) \<notin> {32, 46}"
proof -
  have h: "length (str_strip (lit '' .'') (remove_loop (forbidden_chars @ control_chars)
      [32, 26410, 30693, 58, 25991, 20214, 46])) \<le> 200"
    unfolding remove_loop_clean lit_space_dot by (simp add: sanitize_eval)
  have v: "new_sanitize_filename [32, 26410, 30693, 58, 25991, 20214, 46] = [26410, 30693, 25991, 20214]"
    by (simp add: sanitize_eval)
  from sanitizer_idempotent_iff_no_trailing_space_or_dot [of "[32, 26410, 30693, 58, 25991, 20214, 46]"] h v
  show ?thesis by simp
qed

section \<open>The claims about the flow and the converter\<close>

text \<open>\<open>rfind\<close> on a string that lacks the character, and on the last occurrence.\<close>

lemma rfind_from_notin: "c \<notin> set p \<Longrightarrow> rfind_from c p i f = f"
  by (induction p arbitrary: i) simp_all

lemma rfind_from_append:
  "rfind_from c (xs @ ys) i f = rfind_from c ys (i + int (length xs)) (rfind_from c xs i f)"
  by (induction xs arbitrary: i f) (simp_all add: algebra_simps)

lemma str_rfind_notin: "c \<notin> set p \<Longrightarrow> str_rfind p c = - 1"
  by (simp add: str_rfind_def rfind_from_notin)

lemma str_rfind_last: "c \<notin> set ys \<Longrightarrow> str_rfind (xs @ c # ys) c = int (length xs)"
  by (simp add: str_rfind_def rfind_from_append rfind_from_notin)

text \<open>The loop over the leading dots returns at once when the first character is no dot.\<close>

lemma skip_leading_dots_first:
  assumes "stem \<noteq> []" "hd stem \<noteq> e"
  shows "skip_leading_dots (stem @ rest) e 0 (int (length stem))"
proof -
  from assms(1) obtain x xs where s: "stem = x # xs" by (cases stem) auto
  with assms(2) have "x \<noteq> e" by simp
  with s show ?thesis
    by (subst skip_leading_dots.simps) (simp add: slice_def)
qed

text \<open>
  A name without separators whose part before the last dot starts with another character
  is split at that dot, on both platforms.
\<close>

lemma splitext_simple:
  assumes "stem \<noteq> []" and "hd stem \<noteq> 46" and "47 \<notin> set stem" and "92 \<notin> set stem"
    and "\<forall>c\<in>set ext. c \<notin> {46, 47, 92}"
  shows "os_path_splitext os (stem @ 46 # ext) = (stem, 46 # ext)"
proof -
  let ?p = "stem @ 46 # ext"
  from assms(5) have e: "46 \<notin> set ext" "47 \<notin> set ext" "92 \<notin> set ext" by auto
  have d: "str_rfind ?p 46 = int (length stem)"
    using e(1) by (rule str_rfind_last)
  have s1: "str_rfind ?p 47 = - 1"
    using assms(3) e(2) by (simp add: str_rfind_notin)
  have s2: "str_rfind ?p 92 = - 1"
    using assms(4) e(3) by (simp add: str_rfind_notin)
  have sk: "skip_leading_dots ?p 46 0 (int (length stem))"
    using assms(1,2) by (rule skip_leading_dots_first)
  show ?thesis
    by (cases os) (simp_all add: splitext_generic_def d s1 s2 sk slice_def Let_def)
qed

lemma splitext_unknown_file: "os_path_splitext os unknown_file = (unknown_file, [])"
  by (cases os) (simp_all add: splitext_generic_def str_rfind_def unknown_file_def Let_def)

lemma sanitize_unknown_file: "sanitize_filename unknown_file = unknown_file"
  by (simp add: sanitize_eval unknown_file_def)

lemma lit_docx: "lit ''.docx'' = [46, 100, 111, 99, 120]"
  by (simp add: lit_def)

text \<open>The lookup: the value under \<open>file_name\<close> when present, the default name otherwise.\<close>

lemma default_filename_present:
  "r (lit ''file_name'') = Some name \<Longrightarrow>
     default_filename os r = sanitize_filename (fst (os_path_splitext os name)) @ lit ''.docx''"
  by (simp add: default_filename_def dict_get_def Let_def)

lemma default_filename_absent:
  "r (lit ''file_name'') = None \<Longrightarrow> default_filename os r = unknown_file @ lit ''.docx''"
  by (simp add: default_filename_def dict_get_def Let_def splitext_unknown_file
      sanitize_unknown_file)

lemma default_filename_clean_stem:
  assumes "r (lit ''file_name'') = Some (stem @ 46 # ext)"
    and "stem \<noteq> []" and "length stem \<le> 200"
    and "\<forall>c\<in>set stem. c \<notin> {60, 62, 58, 34, 124, 63, 42, 92, 47} \<and> \<not> c \<le> 31"
    and "hd stem \<notin> {32, 46}" and "last stem \<notin> {32, 46}"
    and "\<forall>c\<in>set ext. c \<notin> {46, 47, 92}"
  shows "default_filename os r = stem @ lit ''.docx''"
proof -
  from assms(4) have n: "47 \<notin> set stem" "92 \<notin> set stem" by auto
  from assms(5) have h: "hd stem \<noteq> 46" by simp
  have "os_path_splitext os (stem @ 46 # ext) = (stem, 46 # ext)"
    using assms(2) h n assms(7) by (rule splitext_simple)
  moreover have "sanitize_filename stem = stem"
    using new_sanitize_id [OF assms(2,3,4,5,6)] by (simp add: sanitize_filename_eq)
  ultimately show ?thesis
    using default_filename_present [of r "stem @ 46 # ext" os] assms(1) by simp
qed

lemma default_filename_general:
  "suffix (lit ''.docx'') (default_filename os r) \<and>
   5 < length (default_filename os r) \<and> length (default_filename os r) \<le> 205 \<and>
   set (default_filename os r) \<inter> ({60, 62, 58, 34, 124, 63, 42, 92, 47} \<union> {c. c \<le> 31}) = {}"
proof -
  let ?b = "fst (os_path_splitext os (dict_get r (lit ''file_name'') unknown_file))"
  have d: "default_filename os r = new_sanitize_filename ?b @ lit ''.docx''"
    by (simp add: default_filename_def Let_def sanitize_filename_eq)
  have "length (new_sanitize_filename ?b) \<le> 200" by (rule new_sanitize_length)
  moreover have "0 < length (new_sanitize_filename ?b)"
    using new_sanitize_nonempty [of ?b] by simp
  moreover have "set (new_sanitize_filename ?b) \<inter> ({60, 62, 58, 34, 124, 63, 42, 92, 47} \<union> {c. c \<le> 31}) = {}"
    by (rule new_sanitize_clean)
  ultimately show ?thesis
    unfolding d by (auto simp add: lit_docx suffix_def)
qed

text \<open>
  C4.  The default file name handed to the save dialog is computed from the OCR result's
  file name: its root (\<open>os.path.splitext\<close>) is sanitized with \<open>_sanitize_filename\<close> and the
  literal \<open>.docx\<close> is appended; without a file name the default name is used.  In particular
  a clean stem followed by an extension gives the stem followed by \<open>.docx\<close>.  Hence the
  default file name always ends in \<open>.docx\<close>, after a non-empty stem of at most 200
  characters that has no forbidden and no control character.
\<close>

theorem default_filename_from_ocr_file_name:
  "(r (lit ''file_name'') = Some name \<longrightarrow>
      default_filename os r = sanitize_filename (fst (os_path_splitext os name)) @ lit ''.docx'') \<and>
   (r (lit ''file_name'') = None \<longrightarrow> default_filename os r = unknown_file @ lit ''.docx'') \<and>
   (r (lit ''file_name'') = Some (stem @ 46 # ext) \<and> stem \<noteq> [] \<and> length stem \<le> 200 \<and>
      (\<forall>c\<in>set stem. c \<notin> {60, 62, 58, 34, 124, 63, 42, 92, 47} \<and> \<not> c \<le> 31) \<and>
      hd stem \<notin> {32, 46} \<and> last stem \<notin> {32, 46} \<and> (\<forall>c\<in>set ext. c \<notin> {46, 47, 92}) \<longrightarrow>
      default_filename os r = stem @ lit ''.docx'') \<and>
   suffix (lit ''.docx'') (default_filename os r) \<and>
   5 < length (default_filename os r) \<and> length (default_filename os r) \<le> 205 \<and>
   set (default_filename os r) \<inter> ({60, 62, 58, 34, 124, 63, 42, 92, 47} \<union> {c. c \<le> 31}) = {}"
  using default_filename_present [of r name os] default_filename_absent [of r os]
    default_filename_clean_stem [of r stem ext os] default_filename_general [of os r]
  by blast

text \<open>
  The name \<open>dir.x\name\<close> with a \<open><\<close> in it: the backslash is a separator on Windows only,
  so the two platforms split it differently.
\<close>

lemma splitext_dir_windows:
  "os_path_splitext Windows [100, 105, 114, 46, 120, 92, 110, 97, 60, 109, 101]
     = ([100, 105, 114, 46, 120, 92, 110, 97, 60, 109, 101], [])"
  by (simp add: splitext_generic_def str_rfind_def slice_def skip_leading_dots.simps Let_def)

lemma splitext_dir_posix:
  "os_path_splitext Posix [100, 105, 114, 46, 120, 92, 110, 97, 60, 109, 101]
     = ([100, 105, 114], [46, 120, 92, 110, 97, 60, 109, 101])"
  by (simp add: splitext_generic_def str_rfind_def slice_def skip_leading_dots.simps Let_def)

text \<open>
  An ideograph name with \<open>.jpg\<close> on both platforms, the name above on both platforms, an
  OCR result without a file name, and the OCR result of the script.
\<close>

theorem default_filename_from_ocr_file_name_witness:
  "default_filename Windows [lit ''file_name'' \<mapsto> [27979, 35797, 25991, 26723, 46, 106, 112, 103]]
     = [27979, 35797, 25991, 26723, 46, 100, 111, 99, 120] \<and>
   default_filename Posix [lit ''file_name'' \<mapsto> [27979, 35797, 25991, 26723, 46, 106, 112, 103]]
     = [27979, 35797, 25991, 26723, 46, 100, 111, 99, 120] \<and>
   default_filename Windows [lit ''file_name'' \<mapsto> [100, 105, 114, 46, 120, 92, 110, 97, 60, 109, 101]]
     = [100, 105, 114, 46, 120, 110, 97, 109, 101, 46, 100, 111, 99, 120] \<and>
   default_filename Posix [lit ''file_name'' \<mapsto> [100, 105, 114, 46, 120, 92, 110, 97, 60, 109, 101]]
     = [100, 105, 114, 46, 100, 111, 99, 120] \<and>
   default_filename Windows Map.empty = [26410, 30693, 25991, 20214, 46, 100, 111, 99, 120] \<and>
   default_filename Windows ocr_result = [26410, 30693, 25991, 20214, 46, 100, 111, 99, 120]"
proof -
  let ?k = "lit ''file_name''"
  let ?r1 = "[?k \<mapsto> [27979, 35797, 25991, 26723, 46, 106, 112, 103]]"
  let ?n2 = "[100, 105, 114, 46, 120, 92, 110, 97, 60, 109, 101] :: pystr"
  let ?r2 = "[?k \<mapsto> ?n2]"
  have h1: "?r1 ?k = Some ([27979, 35797, 25991, 26723] @ 46 # [106, 112, 103]) \<and>
      [27979, 35797, 25991, 26723] \<noteq> ([] :: pystr) \<and> length [27979, 35797, 25991, 26723 :: nat] \<le> 200 \<and>
      (\<forall>c\<in>set [27979, 35797, 25991, 26723]. c \<notin> {60, 62, 58, 34, 124, 63, 42, 92, 47} \<and> \<not> c \<le> (31 :: nat)) \<and>
      hd [27979, 35797, 25991, 26723] \<notin> {32, 46 :: nat} \<and> last [27979, 35797, 25991, 26723] \<notin> {32, 46 :: nat} \<and>
      (\<forall>c\<in>set [106, 112, 103]. c \<notin> {46, 47, 92 :: nat})"
    by simp
  have a1: "default_filename os ?r1 = [27979, 35797, 25991, 26723] @ lit ''.docx''" for os
    using default_filename_from_ocr_file_name
      [of ?r1 "[]" os "[27979, 35797, 25991, 26723]" "[106, 112, 103]"] h1
    by blast
  have h2: "?r2 ?k = Some ?n2" by simp
  have a2: "default_filename os ?r2 = sanitize_filename (fst (os_path_splitext os ?n2)) @ lit ''.docx''" for os
    using default_filename_from_ocr_file_name [of ?r2 ?n2 os "[]" "[]"] h2 by blast
  have a3: "default_filename Windows Map.empty = unknown_file @ lit ''.docx''"
    using default_filename_from_ocr_file_name [of Map.empty "[]" Windows "[]" "[]"] by simp
  have h4: "ocr_result ?k = Some (unknown_file @ 46 # [106, 112, 103]) \<and>
      unknown_file \<noteq> [] \<and> length unknown_file \<le> 200 \<and>
      (\<forall>c\<in>set unknown_file. c \<notin> {60, 62, 58, 34, 124, 63, 42, 92, 47} \<and> \<not> c \<le> 31) \<and>
      hd unknown_file \<notin> {32, 46} \<and> last unknown_file \<notin> {32, 46} \<and>
      (\<forall>c\<in>set [106, 112, 103]. c \<notin> {46, 47, 92 :: nat})"
    by (simp add: ocr_result_def unknown_file_def lit_def)
  have a4: "default_filename Windows ocr_result = unknown_file @ lit ''.docx''"
    using default_filename_from_ocr_file_name
      [of ocr_result "[]" Windows unknown_file "[106, 112, 103]"] h4
    by blast
  have v2w: "sanitize_filename ?n2 = [100, 105, 114, 46, 120, 110, 97, 109, 101]"
    by (simp add: sanitize_eval)
  have v2p: "sanitize_filename [100, 105, 114] = [100, 105, 114]"
    by (simp add: sanitize_eval)
  show ?thesis
    unfolding a1 a2 a3 a4 splitext_dir_windows splitext_dir_posix fst_conv v2w v2p
    by (simp add: lit_docx unknown_file_def)
qed

text \<open>
  C5.  Both command lines start with the executable and the Markdown input file, contain the
  output path immediately after \<open>-o\<close>, and contain \<open>--to\<close> immediately followed by \<open>docx\<close>.
\<close>

theorem pandoc_cmd_shape:
  "pandoc_cmd_encoding exe inp out ! 0 = exe \<and>
   pandoc_cmd_encoding exe inp out ! 1 = inp \<and>
   (\<exists>i. Suc i < length (pandoc_cmd_encoding exe inp out) \<and>
        pandoc_cmd_encoding exe inp out ! i = lit ''-o'' \<and>
        pandoc_cmd_encoding exe inp out ! Suc i = out) \<and>
   (\<exists>j. Suc j < length (pandoc_cmd_encoding exe inp out) \<and>
        pandoc_cmd_encoding exe inp out ! j = lit ''--to'' \<and>
        pandoc_cmd_encoding exe inp out ! Suc j = lit ''docx'') \<and>
   pandoc_cmd_flow exe inp out ! 0 = exe \<and>
   pandoc_cmd_flow exe inp out ! 1 = inp \<and>
   (\<exists>i. Suc i < length (pandoc_cmd_flow exe inp out) \<and>
        pandoc_cmd_flow exe inp out ! i = lit ''-o'' \<and>
        pandoc_cmd_flow exe inp out ! Suc i = out) \<and>
   (\<exists>j. Suc j < length (pandoc_cmd_flow exe inp out) \<and>
        pandoc_cmd_flow exe inp out ! j = lit ''--to'' \<and>
        pandoc_cmd_flow exe inp out ! Suc j = lit ''docx'')"
proof -
  have o1: "\<exists>i. Suc i < length (pandoc_cmd_encoding exe inp out) \<and>
        pandoc_cmd_encoding exe inp out ! i = lit ''-o'' \<and>
        pandoc_cmd_encoding exe inp out ! Suc i = out"
    by (rule exI [of _ 2]) (simp add: pandoc_cmd_encoding_def)
  have t1: "\<exists>j. Suc j < length (pandoc_cmd_encoding exe inp out) \<and>
        pandoc_cmd_encoding exe inp out ! j = lit ''--to'' \<and>
        pandoc_cmd_encoding exe inp out ! Suc j = lit ''docx''"
    by (rule exI [of _ 6]) (simp add: pandoc_cmd_encoding_def)
  have o2: "\<exists>i. Suc i < length (pandoc_cmd_flow exe inp out) \<and>
        pandoc_cmd_flow exe inp out ! i = lit ''-o'' \<and>
        pandoc_cmd_flow exe inp out ! Suc i = out"
    by (rule exI [of _ 2]) (simp add: pandoc_cmd_flow_def)
  have t2: "\<exists>j. Suc j < length (pandoc_cmd_flow exe inp out) \<and>
        pandoc_cmd_flow exe inp out ! j = lit ''--to'' \<and>
        pandoc_cmd_flow exe inp out ! Suc j = lit ''docx''"
    by (rule exI [of _ 6]) (simp add: pandoc_cmd_flow_def)
  have h: "pandoc_cmd_encoding exe inp out ! 0 = exe" "pandoc_cmd_encoding exe inp out ! 1 = inp"
    "pandoc_cmd_flow exe inp out ! 0 = exe" "pandoc_cmd_flow exe inp out ! 1 = inp"
    by (simp_all add: pandoc_cmd_encoding_def pandoc_cmd_flow_def)
  from h o1 t1 o2 t2 show ?thesis by blast
qed

section \<open>The old and the new sanitizer\<close>

text \<open>Substituting the empty string for every match deletes the matching characters.\<close>

lemma re_sub_class_del: "re_sub_class cls [] s = filter (\<lambda>c. \<not> cls c) s"
  by (induction s) (simp_all add: re_sub_class_def)

text \<open>A word character or a hyphen is neither forbidden, nor a control character, nor stripped.\<close>

lemma word_or_hyphen_clean:
  assumes "word_char alnum c \<or> c = 45"
  shows "c \<notin> {60, 62, 58, 34, 124, 63, 42, 92, 47} \<and> \<not> c \<le> 31 \<and> c \<notin> {32, 46}"
proof (cases "c < 128")
  case True
  with assms have "ascii_alnum c \<or> c = 95 \<or> c = 45"
    by (auto simp add: word_char_def)
  then show ?thesis by (auto simp add: ascii_alnum_def)
next
  case False
  then show ?thesis by auto
qed

text \<open>
  C10.  On a non-empty name of at most 200 characters that consists of word characters
  (letters, digits, underscore) and hyphens (45) only, \<open>old_sanitize_filename\<close> and
  \<open>new_sanitize_filename\<close> both return the name unchanged, so they agree.  This holds
  whatever the Unicode database says about the code points from 128 on.
\<close>

theorem old_and_new_agree_on_word_names:
  assumes "s \<noteq> []" and "length s \<le> 200"
    and "\<forall>c\<in>set s. word_char alnum c \<or> c = 45"
  shows "old_sanitize_filename alnum s = s \<and> new_sanitize_filename s = s \<and>
         old_sanitize_filename alnum s = new_sanitize_filename s"
proof -
  have k: "c \<notin> {60, 62, 58, 34, 124, 63, 42, 92, 47} \<and> \<not> c \<le> 31 \<and> c \<notin> {32, 46}"
    if "c \<in> set s" for c
  proof -
    from assms(3) that have "word_char alnum c \<or> c = 45" by (rule bspec)
    then show ?thesis by (rule word_or_hyphen_clean)
  qed
  have "\<not> not_word_dot_hyphen alnum c" if "c \<in> set s" for c
  proof -
    from assms(3) that have "word_char alnum c \<or> c = 45" by (rule bspec)
    then show ?thesis by (auto simp add: not_word_dot_hyphen_def)
  qed
  then have "filter (\<lambda>c. \<not> not_word_dot_hyphen alnum c) s = s"
    by (simp only: filter_id_conv) blast
  then have old: "old_sanitize_filename alnum s = s"
    by (simp add: old_sanitize_filename_def re_sub_class_del)
  from assms(1) have "hd s \<in> set s" "last s \<in> set s" by simp_all
  with k have e: "hd s \<notin> {32, 46}" "last s \<notin> {32, 46}" by blast+
  from k have "\<forall>c\<in>set s. c \<notin> {60, 62, 58, 34, 124, 63, 42, 92, 47} \<and> \<not> c \<le> 31"
    by blast
  with assms(1,2) have "new_sanitize_filename s = s"
    using e by (rule new_sanitize_id)
  with old show ?thesis by simp
qed

text \<open>Two ideographs, a hyphen, \<open>a_1\<close>; the ideographs U+4E00 to U+9FFF are letters.\<close>

theorem old_and_new_agree_on_word_names_witness:
  "old_sanitize_filename (\<lambda>c. 19968 \<le> c \<and> c \<le> 40959) [27979, 35797, 45, 97, 95, 49]
     = [27979, 35797, 45, 97, 95, 49] \<and>
   new_sanitize_filename [27979, 35797, 45, 97, 95, 49] = [27979, 35797, 45, 97, 95, 49]"
proof -
  have h: "[27979, 35797, 45, 97, 95, 49] \<noteq> ([] :: nat list)"
    "length [27979, 35797, 45, 97, 95, 49 :: nat] \<le> 200"
    "\<forall>c\<in>set [27979, 35797, 45, 97, 95, 49]. word_char (\<lambda>c. 19968 \<le> c \<and> c \<le> 40959) c \<or> c = 45"
    by (simp_all add: word_char_def ascii_alnum_def)
  from old_and_new_agree_on_word_names [OF h] show ?thesis by simp
qed

end
